theory Spec2Isabelle
  imports Main
begin

section \<open>Go strings\<close>

text \<open>
  A Go string is modelled by the sequence of runes (Unicode code points) that a
  \<^verbatim>\<open>for _, r := range s\<close> loop yields; a byte that is not valid UTF-8 shows up as
  U+FFFD, as it does in Go. String literals of the source are written \<open>str ''...''\<close>.
\<close>

type_synonym rune = nat
type_synonym gostring = "rune list"

definition str :: "string \<Rightarrow> gostring" where
  "str s = map of_char s"

text \<open>
  \<^verbatim>\<open>unicode.IsSpace\<close>: the Latin-1 cases of its switch, then the White_Space table.
\<close>

definition isSpace :: "rune \<Rightarrow> bool" where
  "isSpace r \<longleftrightarrow>
     (9 \<le> r \<and> r \<le> 13) \<or> r = 32 \<or> r = 0x85 \<or> r = 0xA0 \<or> r = 0x1680 \<or>
     (0x2000 \<le> r \<and> r \<le> 0x200A) \<or> r = 0x2028 \<or> r = 0x2029 \<or> r = 0x202F \<or>
     r = 0x205F \<or> r = 0x3000"

text \<open>\<^verbatim>\<open>strings.TrimSpace\<close>: leading and trailing white space removed.\<close>

definition TrimSpace :: "gostring \<Rightarrow> gostring" where
  "TrimSpace s = rev (dropWhile isSpace (rev (dropWhile isSpace s)))"

text \<open>
  \<^verbatim>\<open>unicode.ToLower\<close> on one rune. On ASCII it adds 32 to \<open>A..Z\<close>. Outside ASCII
  the case tables send exactly two runes into ASCII: U+0130 (capital I with dot above)
  to \<open>i\<close> and U+212A (Kelvin sign) to \<open>k\<close>. Every other non-ASCII rune is sent to a
  non-ASCII rune; both callers below replace every non-ASCII rune by one fixed ASCII
  character right after lowering, so the model leaves such a rune as it is.
\<close>

definition toLowerRune :: "rune \<Rightarrow> rune" where
  "toLowerRune r =
     (if 65 \<le> r \<and> r \<le> 90 then r + 32
      else if r = 0x130 then 105
      else if r = 0x212A then 107
      else r)"

definition ToLower :: "gostring \<Rightarrow> gostring" where
  "ToLower s = map toLowerRune s"

text \<open>
  \<^verbatim>\<open>strings.Fields\<close>: the maximal runs of non-space runes, in order. \<open>cur\<close> is the
  field being read.
\<close>

fun fields_from :: "gostring \<Rightarrow> gostring \<Rightarrow> gostring list" where
  "fields_from cur [] = (if cur = [] then [] else [cur])"
| "fields_from cur (r # rs) =
     (if isSpace r then (if cur = [] then fields_from [] rs else cur # fields_from [] rs)
      else fields_from (cur @ [r]) rs)"

definition Fields :: "gostring \<Rightarrow> gostring list" where
  "Fields s = fields_from [] s"

text \<open>\<^verbatim>\<open>strings.Join(elems, sep)\<close>.\<close>

fun Join :: "gostring list \<Rightarrow> gostring \<Rightarrow> gostring" where
  "Join [] sep = []"
| "Join [x] sep = x"
| "Join (x # y # ys) sep = x @ sep @ Join (y # ys) sep"

section \<open>Errors\<close>

text \<open>
  The errors of the code: the one \<^verbatim>\<open>buildFTSQuery\<close> creates, those that come back from
  the operating system, the database driver and the serializer, and the failure of an
  insert on the primary key of the named table.
\<close>

datatype error =
    NoSearchableTokens
  | OSError
  | SQLError
  | UniqueConstraint string
  | MarshalError

section \<open>Query tokenizer and FTS query builder\<close>

text \<open>The \<^verbatim>\<open>switch\<close> in the loop of \<^verbatim>\<open>tokenizeQuery\<close>: what is written for rune \<open>r\<close>.\<close>

definition tokenRune :: "rune \<Rightarrow> rune" where
  "tokenRune r =
     (if 97 \<le> r \<and> r \<le> 122 then r
      else if 48 \<le> r \<and> r \<le> 57 then r
      else 32)"

definition tokenizeQuery :: "gostring \<Rightarrow> gostring list" where
  "tokenizeQuery q = Fields (map tokenRune (ToLower q))"

definition camerasSearchStopwords :: "gostring list" where
  "camerasSearchStopwords = map str
     [''a'', ''an'', ''and'', ''are'', ''at'', ''by'', ''for'', ''from'',
      ''in'', ''into'', ''is'', ''near'', ''of'', ''on'', ''or'', ''the'', ''to'', ''with'',
      ''camera'', ''cameras'']"

definition isStopword :: "gostring \<Rightarrow> bool" where
  "isStopword t \<longleftrightarrow> t \<in> set camerasSearchStopwords"

text \<open>
  \<^verbatim>\<open>buildFTSQuery\<close>. The source filters in place (\<^verbatim>\<open>keep := toks[:0]\<close> shares the
  array of \<^verbatim>\<open>toks\<close>); \<^verbatim>\<open>toks\<close> is read again only when nothing was appended to
  \<^verbatim>\<open>keep\<close>, that is when the array is untouched, so the filter is a plain one here.
\<close>

definition buildFTSQuery :: "gostring \<Rightarrow> error + gostring" where
  "buildFTSQuery q =
     (let toks = tokenizeQuery q;
          keep0 = filter (\<lambda>t. \<not> isStopword t) toks;
          keep = (if keep0 = [] then toks else keep0)
      in if keep = [] then Inl NoSearchableTokens
         else
           (let terms = map (\<lambda>t. t @ str ''*'') (filter (\<lambda>t. t \<noteq> []) keep)
            in if terms = [] then Inl NoSearchableTokens
               else Inr (Join terms (str '' AND ''))))"

section \<open>Character classes used to state the tokenizer's properties\<close>

definition isTokenChar :: "rune \<Rightarrow> bool" where
  "isTokenChar r \<longleftrightarrow> (97 \<le> r \<and> r \<le> 122) \<or> (48 \<le> r \<and> r \<le> 57)"

definition isAsciiAlnum :: "rune \<Rightarrow> bool" where
  "isAsciiAlnum r \<longleftrightarrow>
     (48 \<le> r \<and> r \<le> 57) \<or> (65 \<le> r \<and> r \<le> 90) \<or> (97 \<le> r \<and> r \<le> 122)"

definition asciiAlnumCount :: "gostring \<Rightarrow> nat" where
  "asciiAlnumCount q = length (filter isAsciiAlnum q)"

text \<open>A rune that the tokenizer keeps: its lower-case form is a letter or a digit.\<close>

definition isWordRune :: "rune \<Rightarrow> bool" where
  "isWordRune r \<longleftrightarrow> isTokenChar (toLowerRune r)"

text \<open>Every maximal run of runes that the tokenizer does not keep becomes one space.\<close>

fun squeeze :: "gostring \<Rightarrow> gostring" where
  "squeeze [] = []"
| "squeeze [r] = [if isWordRune r then r else 32]"
| "squeeze (r # r' # rs) =
     (if isWordRune r then r # squeeze (r' # rs)
      else if isWordRune r' then 32 # squeeze (r' # rs)
      else squeeze (r' # rs))"

text \<open>The tokens \<^verbatim>\<open>buildFTSQuery\<close> keeps after the stopword filter and its fallback.\<close>

definition keptTokens :: "gostring \<Rightarrow> gostring list" where
  "keptTokens q =
     (if filter (\<lambda>t. \<not> isStopword t) (tokenizeQuery q) = [] then tokenizeQuery q
      else filter (\<lambda>t. \<not> isStopword t) (tokenizeQuery q))"

section \<open>Field extraction from raw records\<close>

text \<open>
  A value of Go's \<^verbatim>\<open>any\<close> as \<^verbatim>\<open>pickString\<close> distinguishes it. A \<^verbatim>\<open>fmt.Stringer\<close>
  is carried by the text its \<^verbatim>\<open>String()\<close> returns, a \<^verbatim>\<open>float64\<close> by the decimal
  text that the \<^verbatim>\<open>strconv\<close> calls of its branch render. \<open>VOther\<close> is every value that
  matches no case of the type switch: \<^verbatim>\<open>nil\<close>, a nested object, an array.
\<close>

datatype anyval =
    VString gostring
  | VStringer gostring
  | VFloat64 gostring
  | VBool bool
  | VOther

type_synonym rawrec = "gostring \<rightharpoonup> anyval"

fun pickString :: "rawrec \<Rightarrow> gostring list \<Rightarrow> gostring" where
  "pickString m [] = []"
| "pickString m (k # keys) =
     (case m k of
        None \<Rightarrow> pickString m keys
      | Some v \<Rightarrow>
          (case v of
             VString t \<Rightarrow> t
           | VStringer t \<Rightarrow> t
           | VFloat64 t \<Rightarrow> t
           | VBool b \<Rightarrow> (if b then str ''true'' else str ''false'')
           | VOther \<Rightarrow> pickString m keys))"

text \<open>The text of a value that has one, for stating what \<^verbatim>\<open>pickString\<close> returns.\<close>

fun valueText :: "anyval option \<Rightarrow> gostring option" where
  "valueText None = None"
| "valueText (Some (VString t)) = Some t"
| "valueText (Some (VStringer t)) = Some t"
| "valueText (Some (VFloat64 t)) = Some t"
| "valueText (Some (VBool b)) = Some (if b then str ''true'' else str ''false'')"
| "valueText (Some VOther) = None"

text \<open>
  The extraction as the specification words it: the candidate keys are tried in order
  and the first non-empty value wins.
\<close>

fun spec_firstNonEmptyValue :: "rawrec \<Rightarrow> gostring list \<Rightarrow> gostring" where
  "spec_firstNonEmptyValue m [] = []"
| "spec_firstNonEmptyValue m (k # keys) =
     (case valueText (m k) of
        None \<Rightarrow> spec_firstNonEmptyValue m keys
      | Some t \<Rightarrow> (if t \<noteq> [] then t else spec_firstNonEmptyValue m keys))"


section \<open>Index path\<close>














section \<open>The index store\<close>

text \<open>
  The four tables of \<^verbatim>\<open>initCamerasIndexSchema\<close>. \<^verbatim>\<open>cameras\<close>, \<^verbatim>\<open>labels\<close> and
  \<^verbatim>\<open>meta\<close> have a primary key and are maps from it to the other columns;
  \<^verbatim>\<open>cameras_fts\<close> has none and is a list of rows.
\<close>

record camera_row =
  c_name :: gostring
  c_site :: gostring
  c_model :: gostring
  c_serial :: gostring
  c_status :: gostring
  c_timezone :: gostring
  c_updated_at :: int
  c_raw_json :: gostring

record label_row =
  l_label :: gostring
  l_updated_at :: int

record fts_row =
  f_camera_id :: gostring
  f_name :: gostring
  f_site :: gostring
  f_label :: gostring
  f_model :: gostring
  f_serial :: gostring
  f_status :: gostring
  f_timezone :: gostring

record index_db =
  cameras :: "gostring \<rightharpoonup> camera_row"
  labels :: "gostring \<rightharpoonup> label_row"
  cameras_fts :: "fts_row list"
  meta :: "gostring \<rightharpoonup> gostring"

definition empty_db :: index_db where
  "empty_db = \<lparr>cameras = Map.empty, labels = Map.empty, cameras_fts = [], meta = Map.empty\<rparr>"

text \<open>
  The index file is \<open>None\<close> while it does not exist. \<open>tables\<close> gives the rows a reader
  finds: none when there is no file, or no table yet.
\<close>

definition tables :: "index_db option \<Rightarrow> index_db" where
  "tables idx = (case idx of None \<Rightarrow> empty_db | Some d \<Rightarrow> d)"

text \<open>
  What the code takes from outside: the outcome of each call into the operating system
  and the database driver (\<open>None\<close>: the call succeeds), the clock, the serializer and
  the selected profile. \<open>exec_err n\<close> is the storage failure, if any, of the \<open>n\<close>-th
  call (\<^verbatim>\<open>Exec\<close> or \<^verbatim>\<open>Prepare\<close>, counted from 0) made on a transaction.
\<close>

record env =
  mkdirAll_err :: "error option"
  stat_err :: "error option"
  open_err :: "error option"
  schema_err :: "error option"
  begin_err :: "error option"
  exec_err :: "nat \<Rightarrow> error option"
  commit_err :: "error option"
  now :: int
  json_Marshal :: "rawrec \<Rightarrow> error + gostring"
  selectedProfileName :: gostring

subsection \<open>Statements\<close>

type_synonym stmt = "index_db \<Rightarrow> error + index_db"

definition delete_cameras :: stmt where
  "delete_cameras d = Inr (d\<lparr>cameras := Map.empty\<rparr>)"

definition delete_labels :: stmt where
  "delete_labels d = Inr (d\<lparr>labels := Map.empty\<rparr>)"

definition delete_cameras_fts :: stmt where
  "delete_cameras_fts d = Inr (d\<lparr>cameras_fts := []\<rparr>)"

text \<open>\<^verbatim>\<open>INSERT INTO meta ... ON CONFLICT(key) DO UPDATE SET value=excluded.value\<close>\<close>

definition upsert_meta :: "gostring \<Rightarrow> gostring \<Rightarrow> stmt" where
  "upsert_meta k v d = Inr (d\<lparr>meta := (meta d)(k \<mapsto> v)\<rparr>)"

text \<open>\<^verbatim>\<open>INSERT INTO cameras\<close>: \<^verbatim>\<open>camera_id\<close> is the primary key.\<close>

definition insert_camera :: "gostring \<Rightarrow> camera_row \<Rightarrow> stmt" where
  "insert_camera cid row d =
     (case cameras d cid of
        Some old \<Rightarrow> Inl (UniqueConstraint ''cameras'')
      | None \<Rightarrow> Inr (d\<lparr>cameras := (cameras d)(cid \<mapsto> row)\<rparr>))"

text \<open>\<^verbatim>\<open>INSERT INTO labels\<close>: \<^verbatim>\<open>camera_id\<close> is the primary key.\<close>

definition insert_label :: "gostring \<Rightarrow> label_row \<Rightarrow> stmt" where
  "insert_label cid row d =
     (case labels d cid of
        Some old \<Rightarrow> Inl (UniqueConstraint ''labels'')
      | None \<Rightarrow> Inr (d\<lparr>labels := (labels d)(cid \<mapsto> row)\<rparr>))"

definition insert_cameras_fts :: "fts_row \<Rightarrow> stmt" where
  "insert_cameras_fts row d = Inr (d\<lparr>cameras_fts := cameras_fts d @ [row]\<rparr>)"





subsection \<open>Transactions\<close>

text \<open>
  A transaction works on its own copy of the tables and counts the calls made on it.
  The file changes only at a commit.
\<close>

record tx =
  tx_db :: index_db
  tx_calls :: nat

definition tx_begin :: "index_db \<Rightarrow> tx" where
  "tx_begin d = \<lparr>tx_db = d, tx_calls = 0\<rparr>"

definition tx_Exec :: "env \<Rightarrow> stmt \<Rightarrow> tx \<Rightarrow> error + tx" where
  "tx_Exec ev st t =
     (case exec_err ev (tx_calls t) of
        Some err \<Rightarrow> Inl err
      | None \<Rightarrow>
          (case st (tx_db t) of
             Inl err \<Rightarrow> Inl err
           | Inr d \<Rightarrow> Inr \<lparr>tx_db = d, tx_calls = Suc (tx_calls t)\<rparr>))"

definition tx_Prepare :: "env \<Rightarrow> tx \<Rightarrow> error + tx" where
  "tx_Prepare ev t = tx_Exec ev Inr t"

text \<open>A run of calls each followed by \<^verbatim>\<open>if err != nil { return err }\<close>.\<close>

fun tx_Exec_all :: "env \<Rightarrow> stmt list \<Rightarrow> tx \<Rightarrow> error + tx" where
  "tx_Exec_all ev [] t = Inr t"
| "tx_Exec_all ev (st # sts) t =
     (case tx_Exec ev st t of
        Inl err \<Rightarrow> Inl err
      | Inr t' \<Rightarrow> tx_Exec_all ev sts t')"


subsection \<open>Schema\<close>

text \<open>
  \<^verbatim>\<open>initCamerasIndexSchema\<close>: the errors of the two pragmas are dropped; the four
  \<^verbatim>\<open>CREATE ... IF NOT EXISTS\<close> add no row and remove none, and the first of them
  that fails returns its error: \<open>schema_err\<close> is that error.
\<close>

definition initCamerasIndexSchema :: "env \<Rightarrow> index_db option \<Rightarrow> error + index_db" where
  "initCamerasIndexSchema ev idx =
     (case schema_err ev of
        Some err \<Rightarrow> Inl err
      | None \<Rightarrow> Inr (tables idx))"

subsection \<open>Rebuild\<close>

text \<open>\<^verbatim>\<open>strconv.Itoa\<close> and \<^verbatim>\<open>strconv.FormatInt(_, 10)\<close>.\<close>

fun decimal :: "nat \<Rightarrow> gostring" where
  "decimal n = (if n < 10 then [48 + n] else decimal (n div 10) @ [48 + n mod 10])"

definition FormatInt :: "int \<Rightarrow> gostring" where
  "FormatInt i = (if i < 0 then 45 # decimal (nat (- i)) else decimal (nat i))"

definition camerasIndexSchemaVersion :: int where
  "camerasIndexSchemaVersion = 1"

definition idKeys :: "gostring list" where
  "idKeys = map str [''camera_id'', ''cameraId'', ''cameraID'', ''id'']"

definition cameraID :: "rawrec \<Rightarrow> gostring" where
  "cameraID c = pickString c idKeys"

text \<open>\<^verbatim>\<open>labels[id]\<close> on a Go map, which may be \<^verbatim>\<open>nil\<close>: the empty string for a missing key.\<close>

definition labelOf :: "(gostring \<rightharpoonup> gostring) \<Rightarrow> gostring \<Rightarrow> gostring" where
  "labelOf lbls cid = (case lbls cid of None \<Rightarrow> [] | Some l \<Rightarrow> l)"

definition cameraRow :: "int \<Rightarrow> gostring \<Rightarrow> rawrec \<Rightarrow> camera_row" where
  "cameraRow ts raw c =
     \<lparr>c_name = pickString c (map str [''name'', ''device_name'', ''deviceName'']),
      c_site = pickString c (map str [''site'', ''site_name'', ''siteName'']),
      c_model = pickString c (map str [''model'', ''device_model'', ''deviceModel'']),
      c_serial = pickString c (map str [''serial'', ''serial_number'', ''serialNumber'']),
      c_status = pickString c (map str [''status'', ''camera_status'', ''cameraStatus'']),
      c_timezone = pickString c (map str [''timezone'', ''time_zone'', ''timeZone'']),
      c_updated_at = ts,
      c_raw_json = raw\<rparr>"

definition ftsRow :: "(gostring \<rightharpoonup> gostring) \<Rightarrow> rawrec \<Rightarrow> fts_row" where
  "ftsRow lbls c =
     \<lparr>f_camera_id = cameraID c,
      f_name = pickString c (map str [''name'', ''device_name'', ''deviceName'']),
      f_site = pickString c (map str [''site'', ''site_name'', ''siteName'']),
      f_label = TrimSpace (labelOf lbls (cameraID c)),
      f_model = pickString c (map str [''model'', ''device_model'', ''deviceModel'']),
      f_serial = pickString c (map str [''serial'', ''serial_number'', ''serialNumber'']),
      f_status = pickString c (map str [''status'', ''camera_status'', ''cameraStatus'']),
      f_timezone = pickString c (map str [''timezone'', ''time_zone'', ''timeZone''])\<rparr>"

text \<open>The body of the loop over \<^verbatim>\<open>cams\<close> in \<^verbatim>\<open>rebuildCamerasIndex\<close>.\<close>

definition indexCamera :: "env \<Rightarrow> (gostring \<rightharpoonup> gostring) \<Rightarrow> rawrec \<Rightarrow> tx \<Rightarrow> error + tx" where
  "indexCamera ev lbls c t =
     (let cid = cameraID c
      in if TrimSpace cid = [] then Inr t
         else
           (case json_Marshal ev c of
              Inl err \<Rightarrow> Inl err
            | Inr raw \<Rightarrow>
                (case tx_Exec ev (insert_camera cid (cameraRow (now ev) raw c)) t of
                   Inl err \<Rightarrow> Inl err
                 | Inr t1 \<Rightarrow>
                     (let label = TrimSpace (labelOf lbls cid)
                      in case (if label \<noteq> []
                               then tx_Exec ev (insert_label cid \<lparr>l_label = label, l_updated_at = now ev\<rparr>) t1
                               else Inr t1) of
                           Inl err \<Rightarrow> Inl err
                         | Inr t2 \<Rightarrow> tx_Exec ev (insert_cameras_fts (ftsRow lbls c)) t2))))"

fun indexCameras :: "env \<Rightarrow> (gostring \<rightharpoonup> gostring) \<Rightarrow> rawrec list \<Rightarrow> tx \<Rightarrow> error + tx" where
  "indexCameras ev lbls [] t = Inr t"
| "indexCameras ev lbls (c # cs) t =
     (case indexCamera ev lbls c t of
        Inl err \<Rightarrow> Inl err
      | Inr t' \<Rightarrow> indexCameras ev lbls cs t')"

text \<open>The statements of the rebuild before the loop: three deletes, five upserts.\<close>

definition rebuildHeader :: "env \<Rightarrow> gostring \<Rightarrow> gostring \<Rightarrow> stmt list" where
  "rebuildHeader ev baseURL orgID =
     [delete_cameras, delete_labels, delete_cameras_fts,
      upsert_meta (str ''schema_version'') (FormatInt camerasIndexSchemaVersion),
      upsert_meta (str ''built_at'') (FormatInt (now ev)),
      upsert_meta (str ''base_url'') baseURL,
      upsert_meta (str ''org_id'') orgID,
      upsert_meta (str ''profile'') (selectedProfileName ev)]"

definition rebuildTx ::
  "env \<Rightarrow> gostring \<Rightarrow> gostring \<Rightarrow> rawrec list \<Rightarrow> (gostring \<rightharpoonup> gostring) \<Rightarrow> tx \<Rightarrow> error + tx" where
  "rebuildTx ev baseURL orgID cams lbls t0 =
     (case tx_Exec_all ev (rebuildHeader ev baseURL orgID) t0 of
        Inl err \<Rightarrow> Inl err
      | Inr t1 \<Rightarrow>
          (case tx_Prepare ev t1 of
             Inl err \<Rightarrow> Inl err
           | Inr t2 \<Rightarrow>
               (case tx_Prepare ev t2 of
                  Inl err \<Rightarrow> Inl err
                | Inr t3 \<Rightarrow>
                    (case tx_Prepare ev t3 of
                       Inl err \<Rightarrow> Inl err
                     | Inr t4 \<Rightarrow> indexCameras ev lbls cams t4))))"

text \<open>
  \<^verbatim>\<open>rebuildCamerasIndex\<close>: the returned error (\<open>None\<close> for \<^verbatim>\<open>nil\<close>) and the index
  file afterwards. Every return after \<^verbatim>\<open>db.Begin\<close> but the last runs the deferred
  \<^verbatim>\<open>tx.Rollback\<close>, which leaves the tables as the schema step found them.
\<close>

definition rebuildCamerasIndex ::
  "env \<Rightarrow> gostring \<Rightarrow> gostring \<Rightarrow> rawrec list \<Rightarrow> (gostring \<rightharpoonup> gostring) \<Rightarrow> index_db option
     \<Rightarrow> error option \<times> index_db option" where
  "rebuildCamerasIndex ev baseURL orgID cams lbls idx =
     (case mkdirAll_err ev of
        Some err \<Rightarrow> (Some err, idx)
      | None \<Rightarrow>
          (case open_err ev of
             Some err \<Rightarrow> (Some err, idx)
           | None \<Rightarrow>
               (case initCamerasIndexSchema ev idx of
                  Inl err \<Rightarrow> (Some err, idx)
                | Inr d \<Rightarrow>
                    (case begin_err ev of
                       Some err \<Rightarrow> (Some err, Some d)
                     | None \<Rightarrow>
                         (case rebuildTx ev baseURL orgID cams lbls (tx_begin d) of
                            Inl err \<Rightarrow> (Some err, Some d)
                          | Inr t \<Rightarrow>
                              (case commit_err ev of
                                 Some err \<Rightarrow> (Some err, Some d)
                               | None \<Rightarrow> (None, Some (tx_db t))))))))"

subsection \<open>Label patch\<close>



subsection \<open>The shadow-table invariant\<close>



text \<open>An environment in which every call succeeds is given by these two.\<close>

definition no_exec_err :: "nat \<Rightarrow> error option" where
  "no_exec_err n = None"

definition callsSucceed :: "env \<Rightarrow> bool" where
  "callsSucceed ev \<longleftrightarrow> (\<forall>n. exec_err ev n = None)"

section \<open>Example inputs\<close>

text \<open>A record whose \<^verbatim>\<open>name\<close> is the empty string and whose \<^verbatim>\<open>device_name\<close> is not.\<close>

definition recordEmptyName :: rawrec where
  "recordEmptyName =
     [str ''name'' \<mapsto> VString [], str ''device_name'' \<mapsto> VString (str ''Lobby'')]"

text \<open>A record without \<^verbatim>\<open>name\<close>, with a \<^verbatim>\<open>device_name\<close>.\<close>

definition recordDeviceName :: rawrec where
  "recordDeviceName =
     [str ''camera_id'' \<mapsto> VString (str ''cam-2''), str ''name'' \<mapsto> VOther,
      str ''device_name'' \<mapsto> VString (str ''Lobby'')]"

section \<open>What a rebuild has to leave in the tables\<close>

text \<open>The records of the input that have a camera id.\<close>

definition indexedCams :: "rawrec list \<Rightarrow> rawrec list" where
  "indexedCams cams = filter (\<lambda>c. TrimSpace (cameraID c) \<noteq> []) cams"

definition rebuiltMeta :: "env \<Rightarrow> gostring \<Rightarrow> gostring \<Rightarrow> (gostring \<rightharpoonup> gostring) \<Rightarrow> (gostring \<rightharpoonup> gostring)" where
  "rebuiltMeta ev baseURL orgID m =
     m(str ''schema_version'' \<mapsto> FormatInt camerasIndexSchemaVersion,
       str ''built_at'' \<mapsto> FormatInt (now ev),
       str ''base_url'' \<mapsto> baseURL,
       str ''org_id'' \<mapsto> orgID,
       str ''profile'' \<mapsto> selectedProfileName ev)"

text \<open>
  The tables \<open>new\<close> reflect the input of a rebuild made on the tables \<open>old\<close>: the
  camera rows are those of the records with an id, each with its extracted fields and
  its serialized record; the label rows are those of the indexed cameras with a
  non-blank label; the shadow rows are those of the indexed records, in order; the five
  metadata keys hold the provenance of this build.
\<close>

definition reflectsInput ::
  "env \<Rightarrow> gostring \<Rightarrow> gostring \<Rightarrow> rawrec list \<Rightarrow> (gostring \<rightharpoonup> gostring) \<Rightarrow> index_db \<Rightarrow> index_db \<Rightarrow> bool" where
  "reflectsInput ev baseURL orgID cams lbls old new \<longleftrightarrow>
     dom (cameras new) = cameraID ` set (indexedCams cams) \<and>
     (\<forall>c\<in>set (indexedCams cams). \<exists>raw. json_Marshal ev c = Inr raw \<and>
        cameras new (cameraID c) = Some (cameraRow (now ev) raw c)) \<and>
     (\<forall>cid. labels new cid =
        (if cid \<in> dom (cameras new) \<and> TrimSpace (labelOf lbls cid) \<noteq> []
         then Some \<lparr>l_label = TrimSpace (labelOf lbls cid), l_updated_at = now ev\<rparr>
         else None)) \<and>
     cameras_fts new = map (ftsRow lbls) (indexedCams cams) \<and>
     meta new = rebuiltMeta ev baseURL orgID (meta old)"

text \<open>
  An environment in which every call succeeds. The serializer stands for
  \<^verbatim>\<open>json.Marshal\<close>; no property below depends on the text it gives.
\<close>

definition exampleMarshal :: "rawrec \<Rightarrow> error + gostring" where
  "exampleMarshal c = Inr (str ''{}'')"

definition exampleEnv :: env where
  "exampleEnv =
     \<lparr>mkdirAll_err = None, stat_err = None, open_err = None, schema_err = None,
      begin_err = None, exec_err = no_exec_err, commit_err = None, now = 1700000000,
      json_Marshal = exampleMarshal, selectedProfileName = str ''default''\<rparr>"

text \<open>
  The records and the label of the repository's own test, and a record whose id is
  blank.
\<close>

definition cam1 :: rawrec where
  "cam1 =
     [str ''camera_id'' \<mapsto> VString (str ''cam-1''), str ''name'' \<mapsto> VString (str ''North Door''),
      str ''site'' \<mapsto> VString (str ''Cathedral'')]"

definition cam2 :: rawrec where
  "cam2 =
     [str ''camera_id'' \<mapsto> VString (str ''cam-2''), str ''name'' \<mapsto> VString (str ''Lobby''),
      str ''site'' \<mapsto> VString (str ''HQ'')]"

definition camNoId :: rawrec where
  "camNoId = [str ''camera_id'' \<mapsto> VString (str '' ''), str ''name'' \<mapsto> VString (str ''Spare'')]"

definition exampleLabels :: "gostring \<rightharpoonup> gostring" where
  "exampleLabels = [str ''cam-2'' \<mapsto> str ''Front desk'']"

section \<open>What a label patch may change\<close>



section \<open>Path components that survive the join\<close>









section \<open>Storage failures during a label patch\<close>

text \<open>The three statements of a label patch are the calls 0, 1 and 2 of its transaction.\<close>

definition patchCallsSucceed :: "env \<Rightarrow> bool" where
  "patchCallsSucceed ev \<longleftrightarrow>
     exec_err ev 0 = None \<and> exec_err ev (Suc 0) = None \<and> exec_err ev (Suc (Suc 0)) = None"





section \<open>Properties of the tokenizer and the query builder\<close>

lemma toLowerRune_idem: "toLowerRune (toLowerRune r) = toLowerRune r"
  by (simp add: toLowerRune_def)

lemma ToLower_idem: "ToLower (ToLower s) = ToLower s"
  by (simp add: ToLower_def toLowerRune_idem)

lemma isTokenChar_not_space: "isTokenChar r \<Longrightarrow> \<not> isSpace r"
  by (auto simp: isTokenChar_def isSpace_def)

lemma tokenRune_cases: "tokenRune r = (if isTokenChar r then r else 32)"
  by (auto simp: tokenRune_def isTokenChar_def)

lemma isSpace_32: "isSpace 32"
  by (simp add: isSpace_def)

lemma tokenRune_space_iff: "isSpace (tokenRune r) \<longleftrightarrow> \<not> isTokenChar r"
  by (simp add: tokenRune_cases isSpace_32 isTokenChar_not_space)

lemma fields_from_nonempty: "t \<in> set (fields_from cur s) \<Longrightarrow> t \<noteq> []"
  by (induction cur s rule: fields_from.induct) (auto split: if_splits)

lemma fields_from_chars:
  "t \<in> set (fields_from cur s) \<Longrightarrow> r \<in> set t \<Longrightarrow> r \<in> set cur \<or> (r \<in> set s \<and> \<not> isSpace r)"
  by (induction cur s rule: fields_from.induct) (auto split: if_splits)

lemma fields_from_Nil_iff:
  "fields_from cur s = [] \<longleftrightarrow> cur = [] \<and> (\<forall>r\<in>set s. isSpace r)"
  by (induction cur s rule: fields_from.induct) auto

lemma tokenizeQuery_token_nonempty: "t \<in> set (tokenizeQuery q) \<Longrightarrow> t \<noteq> []"
  unfolding tokenizeQuery_def Fields_def by (rule fields_from_nonempty)

lemma tokenizeQuery_token_chars:
  assumes "t \<in> set (tokenizeQuery q)" and "r \<in> set t"
  shows "isTokenChar r"
proof -
  from assms have "r \<in> set (map tokenRune (ToLower q)) \<and> \<not> isSpace r"
    unfolding tokenizeQuery_def Fields_def by (auto dest: fields_from_chars)
  then obtain x where "r = tokenRune x" and "\<not> isSpace (tokenRune x)" by auto
  then show ?thesis by (simp add: tokenRune_space_iff) (simp add: tokenRune_cases)
qed

lemma tokenizeQuery_Nil_iff:
  "tokenizeQuery q = [] \<longleftrightarrow> (\<forall>r\<in>set q. \<not> isTokenChar (toLowerRune r))"
  by (simp add: tokenizeQuery_def Fields_def fields_from_Nil_iff ToLower_def tokenRune_space_iff)

lemma lowered_token_char_iff:
  "isTokenChar (toLowerRune r) \<longleftrightarrow> isAsciiAlnum r \<or> r = 0x130 \<or> r = 0x212A"
  by (auto simp: isTokenChar_def toLowerRune_def isAsciiAlnum_def)

lemma tokenizeQuery_ToLower: "tokenizeQuery (ToLower s) = tokenizeQuery s"
  by (simp add: tokenizeQuery_def ToLower_idem)

lemma fields_from_squeeze:
  "fields_from cur (map tokenRune (ToLower (squeeze s))) =
   fields_from cur (map tokenRune (ToLower s))"
proof (induction s arbitrary: cur rule: squeeze.induct)
  case 1
  show ?case by simp
next
  case (2 r)
  show ?case
    by (simp add: ToLower_def isWordRune_def tokenRune_cases toLowerRune_def isTokenChar_def
        isSpace_32)
next
  case (3 r r' rs)
  have IH: "fields_from c (map tokenRune (ToLower (squeeze (r' # rs)))) =
            fields_from c (map tokenRune (ToLower (r' # rs)))" for c
    using "3.IH" by (cases "isWordRune r"; cases "isWordRune r'") simp_all
  have w: "tokenRune (toLowerRune x) = toLowerRune x \<and> \<not> isSpace (toLowerRune x)"
    if "isWordRune x" for x
    using that by (simp add: isWordRune_def tokenRune_cases isTokenChar_not_space)
  have nw: "tokenRune (toLowerRune x) = 32" if "\<not> isWordRune x" for x
    using that by (simp add: isWordRune_def tokenRune_cases)
  have sp: "tokenRune (toLowerRune 32) = 32"
    by (simp add: tokenRune_def toLowerRune_def)
  show ?case
  proof (cases "isWordRune r")
    case True
    with IH [of "cur @ [toLowerRune r]"] w [OF True] show ?thesis
      by (simp add: ToLower_def)
  next
    case False
    note nr = this
    show ?thesis
    proof (cases "isWordRune r'")
      case True
      with nr IH [of "[]"] nw [OF nr] sp show ?thesis
        by (simp add: ToLower_def isSpace_32)
    next
      case False
      with nr IH [of cur] IH [of "[]"] nw [OF nr] nw [OF False] show ?thesis
        by (simp add: ToLower_def isSpace_32)
    qed
  qed
qed

lemma keptTokens_subset: "set (keptTokens q) \<subseteq> set (tokenizeQuery q)"
  by (auto simp: keptTokens_def)

lemma keptTokens_Nil_iff: "keptTokens q = [] \<longleftrightarrow> tokenizeQuery q = []"
  by (auto simp: keptTokens_def)

lemma buildFTSQuery_keptTokens:
  "buildFTSQuery q =
     (if tokenizeQuery q = [] then Inl NoSearchableTokens
      else Inr (Join (map (\<lambda>t. t @ str ''*'') (keptTokens q)) (str '' AND '')))"
proof -
  have "\<forall>t\<in>set (keptTokens q). t \<noteq> []"
    using keptTokens_subset [of q] tokenizeQuery_token_nonempty by blast
  then have f: "filter (\<lambda>t. t \<noteq> []) (keptTokens q) = keptTokens q"
    by (simp add: filter_id_conv)
  have "buildFTSQuery q =
      (if keptTokens q = [] then Inl NoSearchableTokens
       else if map (\<lambda>t. t @ str ''*'') (filter (\<lambda>t. t \<noteq> []) (keptTokens q)) = []
            then Inl NoSearchableTokens
            else Inr (Join (map (\<lambda>t. t @ str ''*'') (filter (\<lambda>t. t \<noteq> []) (keptTokens q)))
                        (str '' AND '')))"
    unfolding buildFTSQuery_def keptTokens_def Let_def by (rule refl)
  also have "\<dots> = (if tokenizeQuery q = [] then Inl NoSearchableTokens
      else Inr (Join (map (\<lambda>t. t @ str ''*'') (keptTokens q)) (str '' AND '')))"
    unfolding f by (simp add: keptTokens_Nil_iff)
  finally show ?thesis .
qed

lemmas query_eval =
  buildFTSQuery_def tokenizeQuery_def Fields_def ToLower_def toLowerRune_def tokenRune_def
  isSpace_def isStopword_def camerasSearchStopwords_def str_def

text \<open>
  C5. A query whose tokens are all stopwords is not an error: when the token list is not
  empty and every token is in the stopword set, \<^verbatim>\<open>buildFTSQuery\<close> returns a query, and
  its terms are those of the whole unfiltered token list, each with the prefix star,
  joined by \<^verbatim>\<open>AND\<close>.
\<close>

theorem buildFTSQuery_stopword_fallback:
  assumes "tokenizeQuery q \<noteq> []"
    and "\<forall>t\<in>set (tokenizeQuery q). isStopword t"
  shows "buildFTSQuery q =
           Inr (Join (map (\<lambda>t. t @ str ''*'') (tokenizeQuery q)) (str '' AND ''))"
  using assms by (simp add: buildFTSQuery_keptTokens keptTokens_def filter_empty_conv)

text \<open>The query \<^verbatim>\<open>"the of"\<close>: two stopwords, searched as \<^verbatim>\<open>the* AND of*\<close>.\<close>

theorem buildFTSQuery_stopword_fallback_witness:
  "tokenizeQuery (str ''the of'') = [str ''the'', str ''of''] \<and>
   isStopword (str ''the'') \<and> isStopword (str ''of'') \<and>
   buildFTSQuery (str ''the of'') = Inr (str ''the* AND of*'')"
proof -
  have toks: "tokenizeQuery (str ''the of'') = [str ''the'', str ''of'']"
    by (simp add: query_eval)
  have sw: "isStopword (str ''the'') \<and> isStopword (str ''of'')"
    by (simp add: query_eval)
  have ne: "tokenizeQuery (str ''the of'') \<noteq> []"
    by (simp add: toks)
  have al: "\<forall>t\<in>set (tokenizeQuery (str ''the of'')). isStopword t"
    using sw by (simp add: toks)
  have "buildFTSQuery (str ''the of'') = Inr (str ''the* AND of*'')"
    using buildFTSQuery_stopword_fallback [OF ne al] by (simp add: toks) (simp add: str_def)
  with toks sw show ?thesis by simp
qed

text \<open>
  The Kelvin sign U+212A is not an ASCII character, so a query made of it alone has no
  ASCII letter or digit; \<^verbatim>\<open>strings.ToLower\<close> turns it into \<open>k\<close> and the query is
  built.
\<close>

theorem buildFTSQuery_kelvin_counterexample:
  "asciiAlnumCount [0x212A] = 0 \<and> buildFTSQuery [0x212A] = Inr (str ''k*'')"
  by (simp add: asciiAlnumCount_def isAsciiAlnum_def query_eval)

text \<open>
  C6, amended. \<^verbatim>\<open>buildFTSQuery\<close> returns an error if and only if tokenization produces
  an empty token list, which is the case if and only if the query has no ASCII letter or
  digit and neither of the two runes that \<^verbatim>\<open>strings.ToLower\<close> maps to an ASCII letter
  (U+0130 and U+212A); whenever at least one token exists a query string is returned.
\<close>

theorem buildFTSQuery_error_iff_no_tokens:
  "((\<exists>err. buildFTSQuery q = Inl err) \<longleftrightarrow> tokenizeQuery q = []) \<and>
   (tokenizeQuery q = [] \<longleftrightarrow> (\<forall>r\<in>set q. \<not> isAsciiAlnum r \<and> r \<noteq> 0x130 \<and> r \<noteq> 0x212A)) \<and>
   (tokenizeQuery q \<noteq> [] \<longrightarrow> (\<exists>fts. buildFTSQuery q = Inr fts))"
  by (simp add: buildFTSQuery_keptTokens tokenizeQuery_Nil_iff lowered_token_char_iff)

text \<open>A query of punctuation only is rejected; \<^verbatim>\<open>"lobby"\<close> is not.\<close>

theorem buildFTSQuery_error_iff_no_tokens_witness:
  "buildFTSQuery (str ''?! -'') = Inl NoSearchableTokens \<and>
   tokenizeQuery (str ''?! -'') = [] \<and>
   tokenizeQuery (str ''lobby'') = [str ''lobby''] \<and>
   buildFTSQuery (str ''lobby'') = Inr (str ''lobby*'')"
  using buildFTSQuery_error_iff_no_tokens [of "str ''?! -''"]
    buildFTSQuery_error_iff_no_tokens [of "str ''lobby''"]
  by (simp add: query_eval)

text \<open>
  C7. For every string \<open>s\<close>, \<^verbatim>\<open>tokenizeQuery\<close> gives the same tokens for \<open>s\<close> and for
  the lower-cased \<open>s\<close>, and the same tokens after every run of characters that are not
  letters or digits is replaced by a single separator; \<^verbatim>\<open>"Front-Door!"\<close> and
  \<^verbatim>\<open>"front door"\<close> tokenize identically; every token is non-empty and consists of ASCII
  lower-case letters and digits only.
\<close>

theorem tokenizeQuery_normalizes:
  "tokenizeQuery (ToLower s) = tokenizeQuery s \<and>
   tokenizeQuery (squeeze s) = tokenizeQuery s \<and>
   tokenizeQuery (str ''Front-Door!'') = tokenizeQuery (str ''front door'') \<and>
   (\<forall>t\<in>set (tokenizeQuery s). t \<noteq> [] \<and> (\<forall>r\<in>set t. isTokenChar r))"
proof -
  have "tokenizeQuery (squeeze s) = tokenizeQuery s"
    by (simp add: tokenizeQuery_def Fields_def fields_from_squeeze)
  moreover have "tokenizeQuery (str ''Front-Door!'') = tokenizeQuery (str ''front door'')"
    by (simp add: query_eval)
  ultimately show ?thesis
    using tokenizeQuery_ToLower tokenizeQuery_token_nonempty tokenizeQuery_token_chars
    by blast
qed

theorem tokenizeQuery_normalizes_witness:
  "tokenizeQuery (str ''Front-Door!'') = [str ''front'', str ''door''] \<and>
   tokenizeQuery (ToLower (str ''Front-Door!'')) = [str ''front'', str ''door''] \<and>
   squeeze (str ''Front-Door!'') = str ''Front Door '' \<and>
   tokenizeQuery (squeeze (str ''Front-Door!'')) = [str ''front'', str ''door'']"
proof -
  have t: "tokenizeQuery (str ''Front-Door!'') = [str ''front'', str ''door'']"
    by (simp add: query_eval)
  have s: "squeeze (str ''Front-Door!'') = str ''Front Door ''"
    by (simp add: str_def isWordRune_def isTokenChar_def toLowerRune_def)
  from tokenizeQuery_normalizes [of "str ''Front-Door!''"] t s show ?thesis
    by simp
qed

section \<open>Properties of the field extraction\<close>

lemma pickString_map_filter:
  "pickString m keys =
     (case List.map_filter (\<lambda>k. valueText (m k)) keys of [] \<Rightarrow> [] | t # ts \<Rightarrow> t)"
proof (induction keys)
  case Nil
  show ?case by (simp add: List.map_filter_simps)
next
  case (Cons k keys)
  show ?case
  proof (cases "m k")
    case None
    with Cons show ?thesis by (simp add: List.map_filter_simps)
  next
    case (Some v)
    with Cons show ?thesis by (cases v) (simp_all add: List.map_filter_simps)
  qed
qed

lemma pickString_eq_spec:
  "\<forall>k\<in>set keys. valueText (m k) \<noteq> Some [] \<Longrightarrow>
   pickString m keys = spec_firstNonEmptyValue m keys"
proof (induction keys)
  case Nil
  show ?case by simp
next
  case (Cons k keys)
  show ?case
  proof (cases "m k")
    case None
    with Cons show ?thesis by simp
  next
    case (Some v)
    with Cons show ?thesis by (cases v) auto
  qed
qed

text \<open>
  With \<^verbatim>\<open>name\<close> present and empty, the extraction returns the empty string although
  the next candidate \<^verbatim>\<open>device_name\<close> holds \<^verbatim>\<open>"Lobby"\<close>, which is what "first non-empty
  wins" would return.
\<close>

theorem pickString_empty_value_counterexample:
  "pickString recordEmptyName (map str [''name'', ''device_name'', ''deviceName'']) = [] \<and>
   spec_firstNonEmptyValue recordEmptyName (map str [''name'', ''device_name'', ''deviceName''])
     = str ''Lobby''"
  by (simp add: recordEmptyName_def str_def)

text \<open>
  C4, amended. For every raw record and every ordered list of candidate keys, the
  extraction tries the keys in order and returns the value of the first key that is
  present with a string, \<^verbatim>\<open>Stringer\<close>, number or boolean value, whether that value is
  empty or not: a key that is absent or holds a value of another type does not stop the
  fallback, a key whose value is the empty string does. Where no candidate holds an empty
  text, this is the first non-empty value.
\<close>

theorem pickString_first_present:
  "pickString m keys =
     (case List.map_filter (\<lambda>k. valueText (m k)) keys of [] \<Rightarrow> [] | t # ts \<Rightarrow> t) \<and>
   (valueText (m k) = Some t \<longrightarrow> pickString m (k # keys) = t) \<and>
   (valueText (m k) = None \<longrightarrow> pickString m (k # keys) = pickString m keys) \<and>
   ((\<forall>k\<in>set keys. valueText (m k) \<noteq> Some []) \<longrightarrow>
      pickString m keys = spec_firstNonEmptyValue m keys)"
proof -
  have "pickString m (k # keys) = t" if "valueText (m k) = Some t"
    using that by (simp add: pickString_map_filter List.map_filter_simps)
  moreover have "pickString m (k # keys) = pickString m keys" if "valueText (m k) = None"
    using that by (simp add: pickString_map_filter List.map_filter_simps)
  ultimately show ?thesis
    using pickString_map_filter pickString_eq_spec by blast
qed

theorem pickString_first_present_witness:
  "valueText (recordDeviceName (str ''name'')) = None \<and>
   valueText (recordDeviceName (str ''device_name'')) = Some (str ''Lobby'') \<and>
   pickString recordDeviceName (map str [''name'', ''device_name'', ''deviceName'']) = str ''Lobby'' \<and>
   valueText (recordEmptyName (str ''name'')) = Some [] \<and>
   pickString recordEmptyName (map str [''name'', ''device_name'', ''deviceName'']) = []"
  using pickString_first_present [of recordDeviceName "map str [''name'', ''device_name'', ''deviceName'']"]
  by (simp add: recordDeviceName_def recordEmptyName_def str_def)

section \<open>The loop of the rebuild\<close>

lemma indexCamera_skip: "TrimSpace (cameraID c) = [] \<Longrightarrow> indexCamera ev lbls c t = Inr t"
  by (simp add: indexCamera_def)

lemma tx_Exec_Inr:
  "tx_Exec ev st t = Inr t' \<longleftrightarrow>
     exec_err ev (tx_calls t) = None \<and> (\<exists>d. st (tx_db t) = Inr d \<and> t' = \<lparr>tx_db = d, tx_calls = Suc (tx_calls t)\<rparr>)"
  by (auto simp: tx_Exec_def split: option.splits sum.splits)

lemma indexCamera_Inr:
  assumes "indexCamera ev lbls c t = Inr t'" and "TrimSpace (cameraID c) \<noteq> []"
  shows "\<exists>raw. json_Marshal ev c = Inr raw \<and>
     cameras (tx_db t) (cameraID c) = None \<and>
     cameras (tx_db t') = (cameras (tx_db t))(cameraID c \<mapsto> cameraRow (now ev) raw c) \<and>
     labels (tx_db t') =
       (if TrimSpace (labelOf lbls (cameraID c)) \<noteq> []
        then (labels (tx_db t))(cameraID c \<mapsto>
               \<lparr>l_label = TrimSpace (labelOf lbls (cameraID c)), l_updated_at = now ev\<rparr>)
        else labels (tx_db t)) \<and>
     cameras_fts (tx_db t') = cameras_fts (tx_db t) @ [ftsRow lbls c] \<and>
     meta (tx_db t') = meta (tx_db t)"
  using assms
  by (auto simp: indexCamera_def Let_def tx_Exec_Inr insert_camera_def insert_label_def
      insert_cameras_fts_def split: sum.splits option.splits if_splits)


lemma indexCameras_ConsD:
  "indexCameras ev lbls (c # cs) t = Inr t' \<Longrightarrow>
     \<exists>t1. indexCamera ev lbls c t = Inr t1 \<and> indexCameras ev lbls cs t1 = Inr t'"
  by (simp split: sum.splits)

lemma indexedCams_Cons:
  "indexedCams (c # cs) = (if TrimSpace (cameraID c) \<noteq> [] then c # indexedCams cs else indexedCams cs)"
  by (simp add: indexedCams_def)

lemma indexCameras_meta:
  "indexCameras ev lbls cs t = Inr t' \<Longrightarrow> meta (tx_db t') = meta (tx_db t)"
proof (induction cs arbitrary: t)
  case Nil
  then show ?case by simp
next
  case (Cons c cs)
  from Cons.prems obtain t1 where s: "indexCamera ev lbls c t = Inr t1" and r: "indexCameras ev lbls cs t1 = Inr t'"
    by (blast dest: indexCameras_ConsD)
  have "meta (tx_db t1) = meta (tx_db t)"
  proof (cases "TrimSpace (cameraID c) = []")
    case True
    with s show ?thesis by (simp add: indexCamera_skip)
  next
    case False
    from indexCamera_Inr [OF s False] show ?thesis by auto
  qed
  with Cons.IH [OF r] show ?case by simp
qed

lemma indexCameras_fts:
  "indexCameras ev lbls cs t = Inr t' \<Longrightarrow>
   cameras_fts (tx_db t') = cameras_fts (tx_db t) @ map (ftsRow lbls) (indexedCams cs)"
proof (induction cs arbitrary: t)
  case Nil
  then show ?case by (simp add: indexedCams_def)
next
  case (Cons c cs)
  from Cons.prems obtain t1 where s: "indexCamera ev lbls c t = Inr t1" and r: "indexCameras ev lbls cs t1 = Inr t'"
    by (blast dest: indexCameras_ConsD)
  show ?case
  proof (cases "TrimSpace (cameraID c) = []")
    case True
    with s Cons.IH [OF r] show ?thesis by (simp add: indexCamera_skip indexedCams_Cons)
  next
    case False
    from indexCamera_Inr [OF s False] Cons.IH [OF r] False show ?thesis
      by (auto simp: indexedCams_Cons)
  qed
qed

lemma indexCameras_labels:
  "indexCameras ev lbls cs t = Inr t' \<Longrightarrow>
   labels (tx_db t') cid =
     (if cid \<in> cameraID ` set (indexedCams cs) \<and> TrimSpace (labelOf lbls cid) \<noteq> []
      then Some \<lparr>l_label = TrimSpace (labelOf lbls cid), l_updated_at = now ev\<rparr>
      else labels (tx_db t) cid)"
proof (induction cs arbitrary: t)
  case Nil
  then show ?case by (simp add: indexedCams_def)
next
  case (Cons c cs)
  from Cons.prems obtain t1 where s: "indexCamera ev lbls c t = Inr t1" and r: "indexCameras ev lbls cs t1 = Inr t'"
    by (blast dest: indexCameras_ConsD)
  show ?case
  proof (cases "TrimSpace (cameraID c) = []")
    case True
    with s Cons.IH [OF r] show ?thesis by (simp add: indexCamera_skip indexedCams_Cons)
  next
    case False
    from indexCamera_Inr [OF s False] Cons.IH [OF r] False show ?thesis
      by (auto simp: indexedCams_Cons)
  qed
qed

lemma indexCameras_cameras_kept:
  "indexCameras ev lbls cs t = Inr t' \<Longrightarrow> cameras (tx_db t) cid = Some row \<Longrightarrow>
   cameras (tx_db t') cid = Some row"
proof (induction cs arbitrary: t)
  case Nil
  then show ?case by simp
next
  case (Cons c cs)
  from Cons.prems obtain t1 where s: "indexCamera ev lbls c t = Inr t1" and r: "indexCameras ev lbls cs t1 = Inr t'"
    by (blast dest: indexCameras_ConsD)
  have "cameras (tx_db t1) cid = Some row"
  proof (cases "TrimSpace (cameraID c) = []")
    case True
    with s Cons.prems show ?thesis by (simp add: indexCamera_skip)
  next
    case False
    from indexCamera_Inr [OF s False] Cons.prems(2) show ?thesis by auto
  qed
  with Cons.IH [OF r] show ?case by simp
qed

lemma indexCameras_cameras_rows:
  "indexCameras ev lbls cs t = Inr t' \<Longrightarrow> c \<in> set (indexedCams cs) \<Longrightarrow>
   \<exists>raw. json_Marshal ev c = Inr raw \<and>
         cameras (tx_db t') (cameraID c) = Some (cameraRow (now ev) raw c)"
proof (induction cs arbitrary: t)
  case Nil
  then show ?case by (simp add: indexedCams_def)
next
  case (Cons c0 cs)
  from Cons.prems obtain t1 where s: "indexCamera ev lbls c0 t = Inr t1" and r: "indexCameras ev lbls cs t1 = Inr t'"
    by (blast dest: indexCameras_ConsD)
  show ?case
  proof (cases "c \<in> set (indexedCams cs)")
    case True
    with Cons.IH [OF r] show ?thesis by simp
  next
    case False
    with Cons.prems(2) have e: "c = c0" and nb: "TrimSpace (cameraID c0) \<noteq> []"
      by (auto simp: indexedCams_Cons split: if_splits)
    from indexCamera_Inr [OF s nb] obtain raw where
      m: "json_Marshal ev c0 = Inr raw" and
      c: "cameras (tx_db t1) (cameraID c0) = Some (cameraRow (now ev) raw c0)"
      by auto
    from indexCameras_cameras_kept [OF r c] m e show ?thesis by simp
  qed
qed

lemma indexCameras_dom:
  "indexCameras ev lbls cs t = Inr t' \<Longrightarrow>
   dom (cameras (tx_db t')) = dom (cameras (tx_db t)) \<union> cameraID ` set (indexedCams cs)"
proof (induction cs arbitrary: t)
  case Nil
  then show ?case by (simp add: indexedCams_def)
next
  case (Cons c cs)
  from Cons.prems obtain t1 where s: "indexCamera ev lbls c t = Inr t1" and r: "indexCameras ev lbls cs t1 = Inr t'"
    by (blast dest: indexCameras_ConsD)
  show ?case
  proof (cases "TrimSpace (cameraID c) = []")
    case True
    with s Cons.IH [OF r] show ?thesis by (simp add: indexCamera_skip indexedCams_Cons)
  next
    case False
    from indexCamera_Inr [OF s False] Cons.IH [OF r] False show ?thesis
      by (auto simp: indexedCams_Cons)
  qed
qed

lemma indexCameras_distinct:
  "indexCameras ev lbls cs t = Inr t' \<Longrightarrow>
   distinct (map cameraID (indexedCams cs)) \<and>
   (\<forall>c\<in>set (indexedCams cs). cameras (tx_db t) (cameraID c) = None)"
proof (induction cs arbitrary: t)
  case Nil
  then show ?case by (simp add: indexedCams_def)
next
  case (Cons c cs)
  from Cons.prems obtain t1 where s: "indexCamera ev lbls c t = Inr t1" and r: "indexCameras ev lbls cs t1 = Inr t'"
    by (blast dest: indexCameras_ConsD)
  show ?case
  proof (cases "TrimSpace (cameraID c) = []")
    case True
    with s Cons.IH [OF r] show ?thesis by (simp add: indexCamera_skip indexedCams_Cons)
  next
    case False
    from indexCamera_Inr [OF s False] obtain raw where
      n: "cameras (tx_db t) (cameraID c) = None" and
      u: "cameras (tx_db t1) = (cameras (tx_db t))(cameraID c \<mapsto> cameraRow (now ev) raw c)"
      by auto
    from Cons.IH [OF r] have d: "distinct (map cameraID (indexedCams cs))"
      and f: "\<forall>x\<in>set (indexedCams cs). cameras (tx_db t1) (cameraID x) = None"
      by auto
    from f u have "\<forall>x\<in>set (indexedCams cs). cameraID x \<noteq> cameraID c \<and> cameras (tx_db t) (cameraID x) = None"
      by (auto split: if_splits)
    with d n False show ?thesis
      by (auto simp: indexedCams_Cons)
  qed
qed


lemma tx_Exec_all_Cons_Inr:
  "tx_Exec_all ev (st # sts) t = Inr t' \<longleftrightarrow>
     (\<exists>t1. tx_Exec ev st t = Inr t1 \<and> tx_Exec_all ev sts t1 = Inr t')"
  by (simp split: sum.splits)

lemma rebuildHeader_Inr:
  assumes "tx_Exec_all ev (rebuildHeader ev baseURL orgID) (tx_begin d) = Inr t"
  shows "tx_db t = \<lparr>cameras = Map.empty, labels = Map.empty, cameras_fts = [],
                    meta = rebuiltMeta ev baseURL orgID (meta d)\<rparr>"
  using assms
  unfolding rebuildHeader_def tx_Exec_all_Cons_Inr tx_Exec_Inr
  by (auto simp: tx_begin_def delete_cameras_def delete_labels_def delete_cameras_fts_def
      upsert_meta_def rebuiltMeta_def)

lemma tx_Prepare_Inr: "tx_Prepare ev t = Inr t' \<Longrightarrow> tx_db t' = tx_db t"
  by (auto simp: tx_Prepare_def tx_Exec_Inr)

lemma rebuildTx_Inr:
  assumes "rebuildTx ev baseURL orgID cams lbls (tx_begin d) = Inr t"
  shows "reflectsInput ev baseURL orgID cams lbls d (tx_db t)"
    and "distinct (map cameraID (indexedCams cams))"
proof -
  from assms obtain t1 t2 t3 t4 where
    h: "tx_Exec_all ev (rebuildHeader ev baseURL orgID) (tx_begin d) = Inr t1" and
    p: "tx_Prepare ev t1 = Inr t2" "tx_Prepare ev t2 = Inr t3" "tx_Prepare ev t3 = Inr t4" and
    l: "indexCameras ev lbls cams t4 = Inr t"
    by (auto simp: rebuildTx_def split: sum.splits)
  from p have "tx_db t4 = tx_db t1"
    by (simp add: tx_Prepare_Inr)
  with rebuildHeader_Inr [OF h] have
    s: "cameras (tx_db t4) = Map.empty" "labels (tx_db t4) = Map.empty"
       "cameras_fts (tx_db t4) = []" "meta (tx_db t4) = rebuiltMeta ev baseURL orgID (meta d)"
    by simp_all
  have dm: "dom (cameras (tx_db t)) = cameraID ` set (indexedCams cams)"
    using indexCameras_dom [OF l] s by simp
  show "reflectsInput ev baseURL orgID cams lbls d (tx_db t)"
    unfolding reflectsInput_def
    using dm indexCameras_cameras_rows [OF l] indexCameras_labels [OF l] indexCameras_fts [OF l]
      indexCameras_meta [OF l] s
    by (simp add: dm)
  show "distinct (map cameraID (indexedCams cams))"
    using indexCameras_distinct [OF l] by simp
qed

lemma rebuildCamerasIndex_cases:
  "(\<exists>err idx'. rebuildCamerasIndex ev baseURL orgID cams lbls idx = (Some err, idx') \<and>
       tables idx' = tables idx) \<or>
   (\<exists>t. rebuildCamerasIndex ev baseURL orgID cams lbls idx = (None, Some (tx_db t)) \<and>
       rebuildTx ev baseURL orgID cams lbls (tx_begin (tables idx)) = Inr t)"
  by (auto simp: rebuildCamerasIndex_def initCamerasIndexSchema_def tables_def
      split: option.splits sum.splits)

section \<open>The statements of the label patch\<close>


















section \<open>The rebuild: all or nothing, skipped records, duplicate ids\<close>

lemma indexCameras_indexedCams:
  "indexCameras ev lbls (indexedCams cs) t = indexCameras ev lbls cs t"
proof (induction cs arbitrary: t)
  case Nil
  show ?case by (simp add: indexedCams_def)
next
  case (Cons c cs)
  show ?case
  proof (cases "TrimSpace (cameraID c) = []")
    case True
    with Cons show ?thesis by (simp add: indexedCams_Cons indexCamera_skip)
  next
    case False
    with Cons show ?thesis by (simp add: indexedCams_Cons split: sum.splits)
  qed
qed

lemma rebuildTx_indexedCams:
  "rebuildTx ev baseURL orgID (indexedCams cams) lbls t = rebuildTx ev baseURL orgID cams lbls t"
  unfolding rebuildTx_def indexCameras_indexedCams by (rule refl)

lemma rebuildCamerasIndex_indexedCams:
  "rebuildCamerasIndex ev baseURL orgID (indexedCams cams) lbls idx =
   rebuildCamerasIndex ev baseURL orgID cams lbls idx"
  unfolding rebuildCamerasIndex_def rebuildTx_indexedCams by (rule refl)

lemma rebuildCamerasIndex_None:
  assumes "rebuildCamerasIndex ev baseURL orgID cams lbls idx = (None, idx')"
  shows "\<exists>new. idx' = Some new \<and> reflectsInput ev baseURL orgID cams lbls (tables idx) new \<and>
           distinct (map cameraID (indexedCams cams))"
  using rebuildCamerasIndex_cases [of ev baseURL orgID cams lbls "idx"] assms rebuildTx_Inr
  by fastforce

lemma rebuildCamerasIndex_Some:
  assumes "rebuildCamerasIndex ev baseURL orgID cams lbls idx = (Some err, idx')"
  shows "tables idx' = tables idx"
  using rebuildCamerasIndex_cases [of ev baseURL orgID cams lbls "idx"] assms
  by auto




lemmas rebuild_eval =
  rebuildCamerasIndex_def initCamerasIndexSchema_def tables_def empty_db_def rebuildTx_def
  rebuildHeader_def tx_begin_def tx_Exec_def tx_Prepare_def indexCamera_def cameraID_def idKeys_def
  cameraRow_def ftsRow_def labelOf_def insert_camera_def insert_label_def insert_cameras_fts_def
  delete_cameras_def delete_labels_def delete_cameras_fts_def upsert_meta_def
  exampleEnv_def exampleMarshal_def no_exec_err_def cam1_def cam2_def camNoId_def exampleLabels_def
  TrimSpace_def isSpace_def str_def Let_def


lemma f_camera_id_ftsRow: "f_camera_id (ftsRow lbls c) = cameraID c"
  by (simp add: ftsRow_def)

lemma blank_id_not_indexed:
  "TrimSpace (cameraID c) = [] \<Longrightarrow> cameraID c \<notin> cameraID ` set (indexedCams cams)"
  by (auto simp: indexedCams_def)

text \<open>
  C9. During a rebuild a record whose camera id trims to the empty string is skipped:
  the outcome of the rebuild (its error and the file it leaves) is the one of the same
  rebuild without these records, so that they cannot make it fail, and after a
  successful rebuild no camera, label or shadow row has the id of such a record, while
  every record with a non-blank id has its camera row and its shadow row.
\<close>

theorem rebuild_skips_records_without_id:
  "rebuildCamerasIndex ev baseURL orgID cams lbls idx =
     rebuildCamerasIndex ev baseURL orgID (indexedCams cams) lbls idx \<and>
   (rebuildCamerasIndex ev baseURL orgID cams lbls idx = (None, Some new) \<longrightarrow>
      (\<forall>c\<in>set cams.
         (TrimSpace (cameraID c) = [] \<longrightarrow>
            cameras new (cameraID c) = None \<and> labels new (cameraID c) = None \<and>
            cameraID c \<notin> f_camera_id ` set (cameras_fts new)) \<and>
         (TrimSpace (cameraID c) \<noteq> [] \<longrightarrow>
            (\<exists>raw. json_Marshal ev c = Inr raw \<and>
               cameras new (cameraID c) = Some (cameraRow (now ev) raw c)) \<and>
            ftsRow lbls c \<in> set (cameras_fts new))))"
proof (intro conjI impI ballI)
  show "rebuildCamerasIndex ev baseURL orgID cams lbls idx =
     rebuildCamerasIndex ev baseURL orgID (indexedCams cams) lbls idx"
    by (simp add: rebuildCamerasIndex_indexedCams)
next
  fix c
  assume ok: "rebuildCamerasIndex ev baseURL orgID cams lbls idx = (None, Some new)"
    and c: "c \<in> set cams"
  from rebuildCamerasIndex_None [OF ok]
  have r: "reflectsInput ev baseURL orgID cams lbls (tables idx) new" by simp
  then have dm: "dom (cameras new) = cameraID ` set (indexedCams cams)"
    and fts: "cameras_fts new = map (ftsRow lbls) (indexedCams cams)"
    and lb: "\<And>cid. cid \<notin> dom (cameras new) \<Longrightarrow> labels new cid = None"
    and rows: "\<And>x. x \<in> set (indexedCams cams) \<Longrightarrow> \<exists>raw. json_Marshal ev x = Inr raw \<and>
        cameras new (cameraID x) = Some (cameraRow (now ev) raw x)"
    by (simp_all add: reflectsInput_def)
  {
    assume b: "TrimSpace (cameraID c) = []"
    from blank_id_not_indexed [OF b, of cams] dm have n: "cameraID c \<notin> dom (cameras new)"
      by simp
    then show "cameras new (cameraID c) = None" by auto
    from n show "labels new (cameraID c) = None" by (rule lb)
    from blank_id_not_indexed [OF b, of cams]
    show "cameraID c \<notin> f_camera_id ` set (cameras_fts new)"
      by (simp add: fts image_image f_camera_id_ftsRow)
  }
  {
    assume nb: "TrimSpace (cameraID c) \<noteq> []"
    with c have i: "c \<in> set (indexedCams cams)"
      by (simp add: indexedCams_def)
    from rows [OF i] show "\<exists>raw. json_Marshal ev c = Inr raw \<and>
               cameras new (cameraID c) = Some (cameraRow (now ev) raw c)" .
    from i show "ftsRow lbls c \<in> set (cameras_fts new)"
      by (simp add: fts)
  }
qed

theorem rebuild_skips_records_without_id_witness:
  "TrimSpace (cameraID camNoId) = [] \<and> TrimSpace (cameraID cam2) \<noteq> [] \<and>
   rebuildCamerasIndex exampleEnv (str ''https://api.verkada.com'') (str ''ORG'')
          [cam1, camNoId, cam2] exampleLabels None =
   rebuildCamerasIndex exampleEnv (str ''https://api.verkada.com'') (str ''ORG'')
          [cam1, cam2] exampleLabels None \<and>
   fst (rebuildCamerasIndex exampleEnv (str ''https://api.verkada.com'') (str ''ORG'')
          [cam1, camNoId, cam2] exampleLabels None) = None \<and>
   cameras (tables (snd (rebuildCamerasIndex exampleEnv (str ''https://api.verkada.com'') (str ''ORG'')
          [cam1, camNoId, cam2] exampleLabels None))) (cameraID camNoId) = None \<and>
   cameras (tables (snd (rebuildCamerasIndex exampleEnv (str ''https://api.verkada.com'') (str ''ORG'')
          [cam1, camNoId, cam2] exampleLabels None))) (cameraID cam2)
     = Some (cameraRow 1700000000 (str ''{}'') cam2)"
proof -
  let ?r = "rebuildCamerasIndex exampleEnv (str ''https://api.verkada.com'') (str ''ORG'')
          [cam1, camNoId, cam2] exampleLabels None"
  have b: "TrimSpace (cameraID camNoId) = []" and nb: "TrimSpace (cameraID cam2) \<noteq> []"
    by (simp_all add: rebuild_eval)
  have ix: "indexedCams [cam1, camNoId, cam2] = [cam1, cam2]"
    by (simp add: indexedCams_def rebuild_eval)
  have ok: "fst ?r = None"
    by (simp add: rebuild_eval)
  obtain res f where rf: "?r = (res, f)"
    by (cases ?r)
  with ok have rn: "?r = (None, f)"
    by simp
  from rebuildCamerasIndex_None [OF rn] obtain new where "f = Some new"
    by blast
  with rn have r: "?r = (None, Some new)"
    by simp
  note t = rebuild_skips_records_without_id
    [of exampleEnv "str ''https://api.verkada.com''" "str ''ORG''" "[cam1, camNoId, cam2]"
      exampleLabels None new]
  from t have e: "?r = rebuildCamerasIndex exampleEnv (str ''https://api.verkada.com'') (str ''ORG'')
          [cam1, cam2] exampleLabels None"
    by (simp only: ix)
  from t r b have c1: "cameras new (cameraID camNoId) = None"
    by simp
  from t r nb have c2: "cameras new (cameraID cam2) = Some (cameraRow 1700000000 (str ''{}'') cam2)"
    by (simp add: exampleEnv_def exampleMarshal_def)
  have s: "tables (snd ?r) = new"
    by (simp add: r tables_def)
  from b nb e ok c1 c2 show ?thesis
    unfolding s by blast
qed


lemma tx_Exec_succeed:
  "callsSucceed ev \<Longrightarrow> st (tx_db t) = Inr d \<Longrightarrow>
   tx_Exec ev st t = Inr \<lparr>tx_db = d, tx_calls = Suc (tx_calls t)\<rparr>"
  by (simp add: tx_Exec_def callsSucceed_def)

lemma rebuildHeader_succeed:
  assumes "callsSucceed ev"
  shows "\<exists>t. tx_Exec_all ev (rebuildHeader ev baseURL orgID) (tx_begin d) = Inr t"
  by (simp add: rebuildHeader_def tx_begin_def tx_Exec_succeed [OF assms] delete_cameras_def
      delete_labels_def delete_cameras_fts_def upsert_meta_def)

lemma tx_Prepare_succeed:
  "callsSucceed ev \<Longrightarrow> \<exists>t'. tx_Prepare ev t = Inr t'"
  by (simp add: tx_Prepare_def tx_Exec_succeed)

lemma indexCamera_Inl:
  assumes "callsSucceed ev" and "json_Marshal ev c = Inr raw"
    and "dom (labels (tx_db t)) \<subseteq> dom (cameras (tx_db t))"
    and "indexCamera ev lbls c t = Inl e"
  shows "e = UniqueConstraint ''cameras''"
proof -
  from assms(1) have x: "exec_err ev n = None" for n
    by (simp add: callsSucceed_def)
  show ?thesis
  proof (cases "cameras (tx_db t) (cameraID c)")
    case (Some row)
    with assms(2,4) show ?thesis
      by (simp add: indexCamera_def Let_def tx_Exec_def x insert_camera_def split: if_splits)
  next
    case None
    with assms(3) have "labels (tx_db t) (cameraID c) = None"
      by (auto simp: dom_def)
    with None assms(2,4) show ?thesis
      by (simp add: indexCamera_def Let_def tx_Exec_def x insert_camera_def insert_label_def
          insert_cameras_fts_def split: if_splits)
  qed
qed

lemma indexCamera_labels_dom:
  assumes "indexCamera ev lbls c t = Inr t'"
    and "dom (labels (tx_db t)) \<subseteq> dom (cameras (tx_db t))"
  shows "dom (labels (tx_db t')) \<subseteq> dom (cameras (tx_db t'))"
proof (cases "TrimSpace (cameraID c) = []")
  case True
  with assms show ?thesis by (simp add: indexCamera_skip)
next
  case False
  from assms(2) have k: "\<exists>z. cameras (tx_db t) x = Some z" if "labels (tx_db t) x = Some y" for x y
    using that by blast
  from indexCamera_Inr [OF assms(1) False] show ?thesis
    by (auto split: if_splits dest: k)
qed

lemma indexCameras_Inl:
  assumes "callsSucceed ev"
  shows "\<forall>c\<in>set cs. \<exists>raw. json_Marshal ev c = Inr raw \<Longrightarrow>
    dom (labels (tx_db t)) \<subseteq> dom (cameras (tx_db t)) \<Longrightarrow>
    indexCameras ev lbls cs t = Inl e \<Longrightarrow> e = UniqueConstraint ''cameras''"
proof (induction cs arbitrary: t)
  case Nil
  then show ?case by simp
next
  case (Cons c cs)
  from Cons.prems(1) obtain raw where m: "json_Marshal ev c = Inr raw" by auto
  show ?case
  proof (cases "indexCamera ev lbls c t")
    case (Inl e')
    with Cons.prems(3) have "e' = e" by simp
    with indexCamera_Inl [OF assms m Cons.prems(2)] Inl show ?thesis by simp
  next
    case (Inr t1)
    with Cons.prems(3) have r: "indexCameras ev lbls cs t1 = Inl e" by simp
    from indexCamera_labels_dom [OF Inr Cons.prems(2)] Cons.prems(1) Cons.IH [OF _ _ r]
    show ?thesis by simp
  qed
qed

lemma rebuildTx_duplicate:
  assumes "callsSucceed ev" and "\<forall>c\<in>set cams. \<exists>raw. json_Marshal ev c = Inr raw"
    and "\<not> distinct (map cameraID (indexedCams cams))"
  shows "rebuildTx ev baseURL orgID cams lbls (tx_begin d) = Inl (UniqueConstraint ''cameras'')"
proof -
  from rebuildHeader_succeed [OF assms(1)] obtain t1 where
    h: "tx_Exec_all ev (rebuildHeader ev baseURL orgID) (tx_begin d) = Inr t1" by blast
  from tx_Prepare_succeed [OF assms(1)] obtain t2 t3 t4 where
    p: "tx_Prepare ev t1 = Inr t2" "tx_Prepare ev t2 = Inr t3" "tx_Prepare ev t3 = Inr t4"
    by metis
  from p have "tx_db t4 = tx_db t1" by (simp add: tx_Prepare_Inr)
  with rebuildHeader_Inr [OF h] have e: "dom (labels (tx_db t4)) \<subseteq> dom (cameras (tx_db t4))"
    by simp
  have r: "rebuildTx ev baseURL orgID cams lbls (tx_begin d) = indexCameras ev lbls cams t4"
    by (simp add: rebuildTx_def h p)
  show ?thesis
  proof (cases "indexCameras ev lbls cams t4")
    case (Inl e')
    with indexCameras_Inl [OF assms(1,2) e] r show ?thesis by simp
  next
    case (Inr t')
    with indexCameras_distinct assms(3) show ?thesis by blast
  qed
qed

text \<open>
  C10. When two records of the input resolve to the same non-blank camera id, the
  rebuild neither deduplicates nor lets the last one win: it returns an error and
  leaves every table as it was. Where no call fails for another reason, the error is
  that of the insert into \<^verbatim>\<open>cameras\<close>, whose primary key is the camera id.
\<close>

theorem rebuild_duplicate_camera_id_fails:
  assumes "\<not> distinct (map cameraID (indexedCams cams))"
  shows "(\<exists>err idx'. rebuildCamerasIndex ev baseURL orgID cams lbls idx = (Some err, idx') \<and>
            tables idx' = tables idx) \<and>
         (callsSucceed ev \<and> mkdirAll_err ev = None \<and> open_err ev = None \<and>
          schema_err ev = None \<and> begin_err ev = None \<and>
          (\<forall>c\<in>set cams. \<exists>raw. json_Marshal ev c = Inr raw) \<longrightarrow>
            rebuildCamerasIndex ev baseURL orgID cams lbls idx =
              (Some (UniqueConstraint ''cameras''), Some (tables idx)))"
proof (intro conjI impI)
  obtain res idx' where r: "rebuildCamerasIndex ev baseURL orgID cams lbls idx = (res, idx')"
    by (cases "rebuildCamerasIndex ev baseURL orgID cams lbls idx")
  show "\<exists>err idx'. rebuildCamerasIndex ev baseURL orgID cams lbls idx = (Some err, idx') \<and>
            tables idx' = tables idx"
  proof (cases res)
    case None
    with r rebuildCamerasIndex_None [of ev baseURL orgID cams lbls "idx" idx'] assms
    show ?thesis by simp
  next
    case (Some err)
    with r rebuildCamerasIndex_Some [of ev baseURL orgID cams lbls "idx" err idx']
    show ?thesis by simp
  qed
next
  assume a: "callsSucceed ev \<and> mkdirAll_err ev = None \<and> open_err ev = None \<and>
          schema_err ev = None \<and> begin_err ev = None \<and>
          (\<forall>c\<in>set cams. \<exists>raw. json_Marshal ev c = Inr raw)"
  then have "rebuildTx ev baseURL orgID cams lbls (tx_begin (tables idx)) =
      Inl (UniqueConstraint ''cameras'')"
    using rebuildTx_duplicate assms by blast
  with a show "rebuildCamerasIndex ev baseURL orgID cams lbls idx =
              (Some (UniqueConstraint ''cameras''), Some (tables idx))"
    by (simp add: rebuildCamerasIndex_def initCamerasIndexSchema_def)
qed

theorem rebuild_duplicate_camera_id_fails_witness:
  "map cameraID (indexedCams [cam1, cam2, cam1]) = [str ''cam-1'', str ''cam-2'', str ''cam-1''] \<and>
   callsSucceed exampleEnv \<and>
   rebuildCamerasIndex exampleEnv (str ''https://api.verkada.com'') (str ''ORG'')
        [cam1, cam2, cam1] exampleLabels None
     = (Some (UniqueConstraint ''cameras''), Some empty_db)"
proof -
  have m: "map cameraID (indexedCams [cam1, cam2, cam1]) = [str ''cam-1'', str ''cam-2'', str ''cam-1'']"
    by (simp add: indexedCams_def rebuild_eval)
  then have d: "\<not> distinct (map cameraID (indexedCams [cam1, cam2, cam1]))"
    by simp
  have c: "callsSucceed exampleEnv"
    by (simp add: callsSucceed_def exampleEnv_def no_exec_err_def)
  have e: "mkdirAll_err exampleEnv = None \<and> open_err exampleEnv = None \<and>
          schema_err exampleEnv = None \<and> begin_err exampleEnv = None \<and>
          (\<forall>c\<in>set [cam1, cam2, cam1]. \<exists>raw. json_Marshal exampleEnv c = Inr raw)"
    by (simp add: exampleEnv_def exampleMarshal_def)
  from rebuild_duplicate_camera_id_fails [OF d, of exampleEnv "str ''https://api.verkada.com''"
      "str ''ORG''" exampleLabels None] c e
  have "rebuildCamerasIndex exampleEnv (str ''https://api.verkada.com'') (str ''ORG'')
        [cam1, cam2, cam1] exampleLabels None
     = (Some (UniqueConstraint ''cameras''), Some (tables None))"
    by blast
  with m c show ?thesis
    by (simp add: tables_def)
qed


section \<open>The shadow table after a rebuild and after a patch\<close>


lemma callsSucceed_patch: "callsSucceed ev \<Longrightarrow> patchCallsSucceed ev"
  by (simp add: callsSucceed_def patchCallsSucceed_def)

















section \<open>Properties of the index path\<close>

subsection \<open>Sanitized components\<close>











subsection \<open>Splitting and joining paths\<close>









subsection \<open>Cleaning a path that ends in plain elements\<close>








subsection \<open>The index path of plain components\<close>
















end
